theory Spec2Isabelle
  imports Main
begin

section \<open>Strings and paths\<close>

text \<open>
  Python strings are modelled as HOL strings. \<open>str.lower\<close> is modelled on the ASCII
  letters, which are the only characters that lower-case to a letter of a recognised
  extension.
\<close>

definition lower_char :: "char \<Rightarrow> char" where
  "lower_char c =
     (case map_of (zip ''ABCDEFGHIJKLMNOPQRSTUVWXYZ'' ''abcdefghijklmnopqrstuvwxyz'') c of
        None \<Rightarrow> c
      | Some d \<Rightarrow> d)"

definition lower :: "string \<Rightarrow> string" where
  "lower s = map lower_char s"

text \<open>\<open>str.rfind\<close> with a one-character needle: the highest index, or \<open>-1\<close>.\<close>

fun rfind :: "string \<Rightarrow> char \<Rightarrow> int" where
  "rfind [] c = -1"
| "rfind (x # xs) c =
     (let r = rfind xs c in if 0 \<le> r then r + 1 else if x = c then 0 else -1)"

text \<open>
  A \<open>pathlib.Path\<close> is the list of its parts; the last part is the file name.
  \<open>suffix\<close> and \<open>stem\<close> follow pathlib: with \<open>i = name.rfind('.')\<close>, the name is cut
  at \<open>i\<close> when \<open>0 < i < len(name) - 1\<close>, that is unless the last dot is the first or the
  last character of the name; otherwise the suffix is empty and the stem is the whole name.
  \<open>str_path\<close> is \<open>str(path)\<close>: the parts joined by a slash, after the root if there
  is one.
\<close>

type_synonym path = "string list"

definition path_name :: "path \<Rightarrow> string" where
  "path_name p = (case p of [] \<Rightarrow> [] | _ \<Rightarrow> last p)"

definition suffix :: "path \<Rightarrow> string" where
  "suffix p =
     (let name = path_name p; i = rfind name (CHR ''.'')
      in if 0 < i \<and> i < int (length name) - 1 then drop (nat i) name else [])"

definition stem :: "path \<Rightarrow> string" where
  "stem p =
     (let name = path_name p; i = rfind name (CHR ''.'')
      in if 0 < i \<and> i < int (length name) - 1 then take (nat i) name else name)"

fun str_path :: "path \<Rightarrow> string" where
  "str_path [] = ''.''"
| "str_path [x] = x"
| "str_path (x # y # r) =
     (if x = ''/'' \<or> x = ''//'' then x else x @ ''/'') @ str_path (y # r)"

text \<open>
  \<open>Path(s)\<close> for a POSIX path string: the string is split at its slashes, empty parts and
  \<open>.\<close> parts are dropped, and a leading slash becomes the root part (two leading slashes,
  and only two, are kept as the root \<open>//\<close>).
\<close>

fun split_slash :: "string \<Rightarrow> string list" where
  "split_slash [] = [[]]"
| "split_slash (c # cs) =
     (if c = CHR ''/'' then [] # split_slash cs
      else (case split_slash cs of [] \<Rightarrow> [[c]] | w # ws \<Rightarrow> (c # w) # ws))"

definition Path :: "string \<Rightarrow> path" where
  "Path s =
     (if take 2 s = ''//'' \<and> take 3 s \<noteq> ''///'' then [''//'']
      else if take 1 s = ''/'' then [''/'']
      else [])
     @ filter (\<lambda>part. part \<noteq> [] \<and> part \<noteq> ''.'') (split_slash s)"

section \<open>Matching and orphan computation\<close>

text \<open>\<open>RawOrganizer.get_base_name\<close>: the stem of the path, unchanged.\<close>

definition get_base_name :: "path \<Rightarrow> string" where
  "get_base_name file_path = stem file_path"

text \<open>
  \<open>RawOrganizer.find_matches\<close>: the set comprehension over the anchors, then the loop
  over the targets that adds the stem of every target found among the anchor stems.
\<close>

definition find_matches :: "path list \<Rightarrow> path list \<Rightarrow> string set" where
  "find_matches anchor_files target_files =
     (let anchor_base_names = set (map get_base_name anchor_files)
      in foldl (\<lambda>matching_targets target_file.
                  let target_base = get_base_name target_file
                  in if target_base \<in> anchor_base_names
                     then insert target_base matching_targets
                     else matching_targets)
               {} target_files)"

text \<open>
  \<open>RawOrganizer.find_orphaned_files\<close>: the loop appends every target whose stem is not
  in the result of \<open>find_matches\<close>.
\<close>

definition find_orphaned_files :: "path list \<Rightarrow> path list \<Rightarrow> path list" where
  "find_orphaned_files anchor_files target_files =
     (let matching_bases = find_matches anchor_files target_files
      in foldl (\<lambda>orphaned target_file.
                  let target_base = get_base_name target_file
                  in if target_base \<notin> matching_bases
                     then orphaned @ [target_file]
                     else orphaned)
               [] target_files)"

section \<open>Standard output and exceptions\<close>

text \<open>
  Standard output is the list of the strings written to it, in order. \<open>print\<close>
  writes its argument followed by a newline; the prompt of \<open>input\<close> is written
  without one.
\<close>

definition newline :: string where
  "newline = [CHR 0x0A]"

definition println :: "string \<Rightarrow> string list" where
  "println s = [s @ newline]"

definition quote :: "string \<Rightarrow> string" where
  "quote s = [CHR 0x27] @ s @ [CHR 0x27]"

definition digit_char :: "nat \<Rightarrow> char" where
  "digit_char d = ''0123456789'' ! d"

fun string_of_nat :: "nat \<Rightarrow> string" where
  "string_of_nat n =
     (if n < 10 then [digit_char n] else string_of_nat (n div 10) @ [digit_char (n mod 10)])"

declare string_of_nat.simps [simp del]

text \<open>The exceptions the program can meet; each carries the text of \<open>str(e)\<close>.\<close>

datatype exn =
    FileNotFoundError string
  | PermissionError string
  | IsADirectoryError string
  | ValueError string
  | EOFError string

fun str_exn :: "exn \<Rightarrow> string" where
  "str_exn (FileNotFoundError m) = m"
| "str_exn (PermissionError m) = m"
| "str_exn (IsADirectoryError m) = m"
| "str_exn (ValueError m) = m"
| "str_exn (EOFError m) = m"

section \<open>The file system\<close>

text \<open>
  The directory tree the program runs on: its nodes in traversal order, each a regular
  file or a directory, and the paths whose removal the system refuses. \<open>rglob\<close> lists
  the nodes strictly below a directory; \<open>unlink\<close> removes a regular file or raises.
\<close>

datatype node_kind = RegularFile | Directory

record fsys =
  nodes :: "(path \<times> node_kind) list"
  locked :: "path list"

definition path_exists :: "fsys \<Rightarrow> path \<Rightarrow> bool" where
  "path_exists fs p = (map_of (nodes fs) p \<noteq> None)"

definition is_file :: "fsys \<Rightarrow> path \<Rightarrow> bool" where
  "is_file fs p = (map_of (nodes fs) p = Some RegularFile)"

definition below :: "path \<Rightarrow> path \<Rightarrow> bool" where
  "below root p = (length root < length p \<and> take (length root) p = root)"

definition rglob :: "fsys \<Rightarrow> path \<Rightarrow> path list" where
  "rglob fs root = filter (below root) (map fst (nodes fs))"

definition unlink :: "fsys \<Rightarrow> path \<Rightarrow> exn + fsys" where
  "unlink fs p =
     (if \<not> path_exists fs p
      then Inl (FileNotFoundError (''[Errno 2] No such file or directory: '' @ quote (str_path p)))
      else if \<not> is_file fs p
      then Inl (IsADirectoryError (''[Errno 21] Is a directory: '' @ quote (str_path p)))
      else if p \<in> set (locked fs)
      then Inl (PermissionError (''[Errno 13] Permission denied: '' @ quote (str_path p)))
      else Inr (fs\<lparr>nodes := filter (\<lambda>n. fst n \<noteq> p) (nodes fs)\<rparr>))"

section \<open>The organizer\<close>

record organizer =
  self_input_directory :: path
  self_jpg_files :: "path list"
  self_raw_files :: "path list"
  self_deleted_files :: "path list"
  self_raw_extensions :: "string set"

text \<open>
  \<open>RawOrganizer.__init__\<close> takes the directory as the string given on the command line,
  keeps it as a \<open>Path\<close>, and raises when that path does not exist; the message holds the
  string as it was given.
\<close>

definition RawOrganizer :: "fsys \<Rightarrow> string \<Rightarrow> exn + organizer" where
  "RawOrganizer fs input_directory =
     (if \<not> path_exists fs (Path input_directory)
      then Inl (FileNotFoundError (''Directory '' @ input_directory @ '' does not exist''))
      else Inr \<lparr>self_input_directory = Path input_directory,
                self_jpg_files = [],
                self_raw_files = [],
                self_deleted_files = [],
                self_raw_extensions =
                  {''.cr2'', ''.cr3'', ''.nef'', ''.arw'', ''.dng'',
                   ''.orf'', ''.rw2'', ''.pef'', ''.srw'', ''.x3f''}\<rparr>)"

text \<open>
  \<open>RawOrganizer.discover_files\<close>: one step of the loop over \<open>rglob('*')\<close>, then the
  method itself, which stores both lists on the organizer and prints the counts.
\<close>

definition discover_step ::
  "fsys \<Rightarrow> string set \<Rightarrow> path list \<times> path list \<Rightarrow> path \<Rightarrow> path list \<times> path list" where
  "discover_step fs raw_exts acc file_path =
     (case acc of (jpg_files, raw_files) \<Rightarrow>
        if is_file fs file_path then
          (let ext = lower (suffix file_path)
           in if ext \<in> set [''.jpg'', ''.jpeg''] then (jpg_files @ [file_path], raw_files)
              else if ext \<in> raw_exts then (jpg_files, raw_files @ [file_path])
              else (jpg_files, raw_files))
        else (jpg_files, raw_files))"

definition discover_files ::
  "organizer \<Rightarrow> fsys \<Rightarrow> (path list \<times> path list) \<times> organizer \<times> string list" where
  "discover_files self fs =
     (case foldl (discover_step fs (self_raw_extensions self)) ([], [])
             (rglob fs (self_input_directory self)) of
        (jpg_files, raw_files) \<Rightarrow>
          ((jpg_files, raw_files),
           self\<lparr>self_jpg_files := jpg_files, self_raw_files := raw_files\<rparr>,
           println (''Scanning directory: '' @ str_path (self_input_directory self))
           @ println (''Found '' @ string_of_nat (length jpg_files) @ '' JPG files'')
           @ println (''Found '' @ string_of_nat (length raw_files) @ '' RAW files'')))"

text \<open>
  \<open>RawOrganizer.delete_files\<close>: the loop carries the list of deleted files, the file
  system and the output. An exception of \<open>unlink\<close> is caught inside the loop body.
\<close>

fun delete_loop ::
  "bool \<Rightarrow> path list \<Rightarrow> path list \<times> fsys \<times> string list \<Rightarrow> path list \<times> fsys \<times> string list" where
  "delete_loop dry_run [] st = st"
| "delete_loop dry_run (file_path # rest) (deleted, fs, out) =
     (if \<not> dry_run then
        (case unlink fs file_path of
           Inr fs' \<Rightarrow>
             delete_loop dry_run rest
               (deleted @ [file_path], fs', out @ println (''Deleted: '' @ str_path file_path))
         | Inl e \<Rightarrow>
             delete_loop dry_run rest
               (deleted, fs,
                out @ println (''Error deleting '' @ str_path file_path @ '': '' @ str_exn e)))
      else
        delete_loop dry_run rest
          (deleted @ [file_path], fs,
           out @ println (''[DRY RUN] Would delete: '' @ str_path file_path)))"

definition delete_files ::
  "path list \<Rightarrow> bool \<Rightarrow> fsys \<Rightarrow> path list \<times> fsys \<times> string list" where
  "delete_files files_to_delete dry_run fs = delete_loop dry_run files_to_delete ([], fs, [])"

text \<open>\<open>RawOrganizer.organize_files\<close> and the dictionary it returns.\<close>

record results =
  res_anchor_files :: "path list"
  res_target_files :: "path list"
  res_orphaned_files :: "path list"
  res_deleted_files :: "path list"
  res_anchor_type :: string
  res_target_type :: string

definition organize_files ::
  "organizer \<Rightarrow> string \<Rightarrow> bool \<Rightarrow> fsys \<Rightarrow> exn + (results \<times> organizer \<times> fsys \<times> string list)" where
  "organize_files self anchor_type dry_run fs =
     (case (if lower anchor_type = ''jpg''
            then Inr (self_jpg_files self, self_raw_files self, ''JPG'', ''RAW'')
            else if lower anchor_type = ''raw''
            then Inr (self_raw_files self, self_jpg_files self, ''RAW'', ''JPG'')
            else Inl (ValueError (''Anchor type must be '' @ quote ''jpg'' @ '' or '' @ quote ''raw''))) of
        Inl e \<Rightarrow> Inl e
      | Inr (anchor_files, target_files, anchor_name, target_name) \<Rightarrow>
          (let out1 = println (newline @ ''Organizing with '' @ anchor_name @ '' files as anchor...'')
                      @ println (''Anchor files: '' @ string_of_nat (length anchor_files))
                      @ println (''Target files: '' @ string_of_nat (length target_files));
               orphaned_files = find_orphaned_files anchor_files target_files;
               out2 = println (newline @ ''Found '' @ string_of_nat (length orphaned_files)
                               @ '' orphaned '' @ target_name @ '' files:'')
                      @ concat (map (\<lambda>file_path. println (''  - '' @ str_path file_path)) orphaned_files)
           in case (if orphaned_files \<noteq> [] then
                      if dry_run then
                        (self, fs,
                         println (newline @ ''[DRY RUN] Would delete ''
                                  @ string_of_nat (length orphaned_files)
                                  @ '' orphaned '' @ target_name @ '' files''))
                      else
                        (case delete_files orphaned_files False fs of
                           (deleted, fs', outd) \<Rightarrow>
                             (self\<lparr>self_deleted_files := self_deleted_files self @ deleted\<rparr>, fs',
                              println (newline @ ''Deleting '' @ string_of_nat (length orphaned_files)
                                       @ '' orphaned '' @ target_name @ '' files...'')
                              @ outd))
                    else (self, fs, [])) of
                (self', fs', out3) \<Rightarrow>
                  Inr (\<lparr>res_anchor_files = anchor_files,
                        res_target_files = target_files,
                        res_orphaned_files = orphaned_files,
                        res_deleted_files = self_deleted_files self',
                        res_anchor_type = anchor_name,
                        res_target_type = target_name\<rparr>,
                       self', fs', out1 @ out2 @ out3)))"

text \<open>\<open>RawOrganizer.print_organization_report\<close>.\<close>

definition print_organization_report :: "results \<Rightarrow> string list" where
  "print_organization_report res =
     println (newline @ replicate 60 (CHR ''=''))
     @ println ''ORGANIZATION REPORT''
     @ println (replicate 60 (CHR ''=''))
     @ println (''Anchor files ('' @ res_anchor_type res @ ''): ''
                @ string_of_nat (length (res_anchor_files res)))
     @ println (''Target files ('' @ res_target_type res @ ''): ''
                @ string_of_nat (length (res_target_files res)))
     @ println (''Orphaned files found: '' @ string_of_nat (length (res_orphaned_files res)))
     @ println (''Files deleted: '' @ string_of_nat (length (res_deleted_files res)))
     @ (if res_orphaned_files res \<noteq> [] then
          println (newline @ ''Orphaned '' @ res_target_type res @ '' files:'')
          @ concat (map (\<lambda>file_path. println (''  - '' @ str_path file_path)) (res_orphaned_files res))
        else [])
     @ (if res_deleted_files res \<noteq> [] then
          println (newline @ ''Deleted files:'')
          @ concat (map (\<lambda>file_path. println (''  - '' @ str_path file_path)) (res_deleted_files res))
        else [])
     @ println (newline @ replicate 60 (CHR ''=''))"

section \<open>The command line\<close>

text \<open>
  \<open>main\<close> on the parsed arguments, the line that \<open>input\<close> reads (\<open>None\<close> at end of
  input) and the file system. It returns the exit code, the output and the file system
  it leaves. \<open>main_organize\<close> is the tail of \<open>main\<close> that both modes reach: the call
  of \<open>organize_files\<close> and the report.
\<close>

record args =
  args_directory :: string
  args_anchor :: string
  args_dry_run :: bool
  args_execute :: bool

definition main_organize ::
  "organizer \<Rightarrow> args \<Rightarrow> bool \<Rightarrow> fsys \<Rightarrow> string list \<Rightarrow> int \<times> string list \<times> fsys" where
  "main_organize organizer a dry_run fs out =
     (case organize_files organizer (args_anchor a) dry_run fs of
        Inl e \<Rightarrow> (1, out @ println (''Error: '' @ str_exn e), fs)
      | Inr (res, organizer', fs', out') \<Rightarrow>
          (0, out @ out' @ print_organization_report res, fs'))"

definition main :: "args \<Rightarrow> string option \<Rightarrow> fsys \<Rightarrow> int \<times> string list \<times> fsys" where
  "main a stdin fs =
     (case RawOrganizer fs (args_directory a) of
        Inl e \<Rightarrow> (1, println (''Error: '' @ str_exn e), fs)
      | Inr organizer0 \<Rightarrow>
          (case discover_files organizer0 fs of
             ((jpg_files, raw_files), organizer, out) \<Rightarrow>
               if jpg_files = [] \<and> raw_files = [] then
                 (0, out @ println ''No JPG or RAW files found in the directory.'', fs)
               else
                 (let dry_run = \<not> args_execute a
                  in if dry_run then
                       main_organize organizer a dry_run fs
                         (out @ println (newline @ ''[DRY RUN MODE] - No files will be deleted'')
                              @ println ''Use --execute flag to actually delete files'')
                     else
                       (let out' = out @ println (newline @ ''[EXECUTION MODE] - Files will be deleted!'')
                                       @ [''Are you sure you want to proceed? (yes/no): '']
                        in case stdin of
                             None \<Rightarrow>
                               (1, out' @ println (''Error: '' @ str_exn (EOFError ''EOF when reading a line'')), fs)
                           | Some response \<Rightarrow>
                               if lower response \<noteq> ''yes'' then
                                 (0, out' @ println ''Operation cancelled.'', fs)
                               else main_organize organizer a dry_run fs out'))))"

section \<open>Example trees\<close>

text \<open>
  Concrete inputs for the closed theorems below: \<open>photos\<close> is a directory \<open>d\<close> with one
  JPEG and three RAW files, one of which (\<open>b.cr2\<close>) cannot be removed, and
  \<open>photos_unlocked\<close> is the same tree with nothing locked; \<open>organizer_d\<close> is the organizer
  that \<open>RawOrganizer\<close> builds for \<open>d\<close> and \<open>photos_scanned\<close> is that organizer after
  \<open>discover_files\<close> on \<open>photos\<close>; \<open>mixed_case\<close> has upper-case extensions, a
  subdirectory, a dot file and a name with two dots; \<open>no_photos\<close> holds no image;
  \<open>dotted\<close> holds the names with several dots.
\<close>

definition photos :: fsys where
  "photos =
     \<lparr>nodes = [([''d''], Directory),
               ([''d'', ''a.jpg''], RegularFile),
               ([''d'', ''a.cr2''], RegularFile),
               ([''d'', ''b.cr2''], RegularFile),
               ([''d'', ''c.cr2''], RegularFile)],
      locked = [[''d'', ''b.cr2'']]\<rparr>"

definition organizer_d :: organizer where
  "organizer_d =
     \<lparr>self_input_directory = [''d''],
      self_jpg_files = [],
      self_raw_files = [],
      self_deleted_files = [],
      self_raw_extensions =
        {''.cr2'', ''.cr3'', ''.nef'', ''.arw'', ''.dng'',
         ''.orf'', ''.rw2'', ''.pef'', ''.srw'', ''.x3f''}\<rparr>"

definition mixed_case :: fsys where
  "mixed_case =
     \<lparr>nodes = [([''d''], Directory),
               ([''d'', ''IMG.JPG''], RegularFile),
               ([''d'', ''img.jpg''], RegularFile),
               ([''d'', ''notes.txt''], RegularFile),
               ([''d'', ''x.CR2''], RegularFile),
               ([''d'', ''sub''], Directory),
               ([''d'', ''sub'', ''y.Nef''], RegularFile),
               ([''d'', ''sub'', ''.jpg''], RegularFile),
               ([''d'', ''sub'', ''a.b.jpg''], RegularFile)],
      locked = []\<rparr>"

definition photos_scanned :: organizer where
  "photos_scanned =
     organizer_d\<lparr>self_jpg_files := [[''d'', ''a.jpg'']],
                 self_raw_files := [[''d'', ''a.cr2''], [''d'', ''b.cr2''], [''d'', ''c.cr2'']]\<rparr>"

definition photos_unlocked :: fsys where
  "photos_unlocked = photos\<lparr>locked := []\<rparr>"

definition no_photos :: fsys where
  "no_photos = \<lparr>nodes = [([''d''], Directory), ([''d'', ''notes.txt''], RegularFile)], locked = []\<rparr>"

definition dotted :: fsys where
  "dotted =
     \<lparr>nodes = [([''d''], Directory),
               ([''d'', ''a.b.jpg''], RegularFile),
               ([''d'', ''a.b.cr2''], RegularFile),
               ([''d'', ''a.cr2''], RegularFile),
               ([''d'', ''.jpg''], RegularFile)],
      locked = []\<rparr>"

section \<open>Properties of matching\<close>

lemma find_matches_loop:
  "foldl (\<lambda>m t. let b = get_base_name t in if b \<in> A then insert b m else m) M ts
     = M \<union> (A \<inter> get_base_name ` set ts)"
  by (induction ts arbitrary: M) (auto simp: Let_def)

lemma find_matches_eq:
  "find_matches anchor_files target_files
     = get_base_name ` set anchor_files \<inter> get_base_name ` set target_files"
  by (simp add: find_matches_def find_matches_loop)

lemma find_orphaned_loop:
  "foldl (\<lambda>orph t. let b = get_base_name t in if b \<notin> M then orph @ [t] else orph) acc ts
     = acc @ filter (\<lambda>t. get_base_name t \<notin> M) ts"
  by (induction ts arbitrary: acc) (auto simp: Let_def)

lemma filter_matching_eq:
  "filter (\<lambda>t. get_base_name t \<notin> A \<inter> get_base_name ` set ts) ts
     = filter (\<lambda>t. get_base_name t \<notin> A) ts"
  by (rule filter_cong) auto

lemma find_orphaned_files_filter:
  "find_orphaned_files anchor_files target_files
     = filter (\<lambda>t. get_base_name t \<notin> get_base_name ` set anchor_files) target_files"
proof -
  have "find_orphaned_files anchor_files target_files
          = filter (\<lambda>t. get_base_name t \<notin> find_matches anchor_files target_files) target_files"
    unfolding find_orphaned_files_def Let_def
    using find_orphaned_loop [of "find_matches anchor_files target_files" "[]" target_files]
    unfolding Let_def by simp
  then show ?thesis
    unfolding find_matches_eq by (simp only: filter_matching_eq)
qed

section \<open>Properties of names\<close>

lemma rfind_ge: "- 1 \<le> rfind s c"
  by (induction s) (auto simp: Let_def)

lemma rfind_neg_iff: "rfind s c < 0 \<longleftrightarrow> c \<notin> set s"
  by (induction s) (auto simp: Let_def)

lemma rfind_absent: "c \<notin> set s \<Longrightarrow> rfind s c = - 1"
  using rfind_neg_iff [of s c] rfind_ge [of s c] by simp

lemma rfind_append:
  "rfind (xs @ ys) c = (if c \<in> set ys then int (length xs) + rfind ys c else rfind xs c)"
proof (induction xs)
  case Nil
  then show ?case by (simp add: rfind_absent)
next
  case (Cons x xs)
  have "c \<in> set ys \<Longrightarrow> 0 \<le> rfind ys c"
    using rfind_neg_iff [of ys c] by simp
  with Cons show ?case by (simp add: Let_def)
qed

lemma rfind_last: "c \<notin> set e \<Longrightarrow> rfind (b @ c # e) c = int (length b)"
  by (simp add: rfind_append rfind_absent Let_def)

lemma stem_suffix_name: "stem p @ suffix p = path_name p"
  by (simp add: stem_def suffix_def Let_def)

lemma path_name_snoc: "path_name (d @ [n]) = n"
  by (cases d) (simp_all add: path_name_def)

lemma stem_last_dot:
  assumes "b \<noteq> []" "e \<noteq> []" "CHR ''.'' \<notin> set e"
  shows "stem (d @ [b @ ''.'' @ e]) = b" and "suffix (d @ [b @ ''.'' @ e]) = ''.'' @ e"
  using assms by (simp_all add: stem_def suffix_def path_name_snoc rfind_last Let_def)

lemma leading_dot_only:
  assumes "CHR ''.'' \<notin> set e"
  shows "suffix (d @ [''.'' @ e]) = []" and "stem (d @ [''.'' @ e]) = ''.'' @ e"
  using assms rfind_last [of "CHR ''.''" e "[]"]
  by (simp_all add: stem_def suffix_def path_name_snoc Let_def)

section \<open>Properties of scanning\<close>

lemma discover_loop:
  "foldl (discover_step fs X) (j, r) ps
     = (j @ filter (\<lambda>p. is_file fs p \<and> lower (suffix p) \<in> {''.jpg'', ''.jpeg''}) ps,
        r @ filter (\<lambda>p. is_file fs p \<and> lower (suffix p) \<notin> {''.jpg'', ''.jpeg''}
                        \<and> lower (suffix p) \<in> X) ps)"
  by (induction ps arbitrary: j r) (simp_all add: discover_step_def Let_def)

lemma discover_files_lists:
  "fst (discover_files self fs)
     = (filter (\<lambda>p. is_file fs p \<and> lower (suffix p) \<in> {''.jpg'', ''.jpeg''})
          (rglob fs (self_input_directory self)),
        filter (\<lambda>p. is_file fs p \<and> lower (suffix p) \<notin> {''.jpg'', ''.jpeg''}
                      \<and> lower (suffix p) \<in> self_raw_extensions self)
          (rglob fs (self_input_directory self)))"
  by (simp add: discover_files_def discover_loop)

lemma rawset_not_jpg:
  "x \<in> {''.cr2'', ''.cr3'', ''.nef'', ''.arw'', ''.dng'', ''.orf'', ''.rw2'', ''.pef'', ''.srw'', ''.x3f''}
     \<Longrightarrow> x \<notin> {''.jpg'', ''.jpeg''}"
  by auto

lemma discover_files_fresh:
  assumes "RawOrganizer fs dir = Inr organizer0"
  shows "fst (discover_files organizer0 fs)
           = (filter (\<lambda>p. is_file fs p \<and> lower (suffix p) \<in> {''.jpg'', ''.jpeg''}) (rglob fs (Path dir)),
              filter (\<lambda>p. is_file fs p \<and> lower (suffix p) \<in>
                        {''.cr2'', ''.cr3'', ''.nef'', ''.arw'', ''.dng'',
                         ''.orf'', ''.rw2'', ''.pef'', ''.srw'', ''.x3f''}) (rglob fs (Path dir)))"
proof -
  from assms have dir: "self_input_directory organizer0 = Path dir"
    and exts: "self_raw_extensions organizer0 =
                 {''.cr2'', ''.cr3'', ''.nef'', ''.arw'', ''.dng'',
                  ''.orf'', ''.rw2'', ''.pef'', ''.srw'', ''.x3f''}"
    by (auto simp: RawOrganizer_def split: if_splits)
  have "filter (\<lambda>p. is_file fs p \<and> lower (suffix p) \<notin> {''.jpg'', ''.jpeg''}
                      \<and> lower (suffix p) \<in> self_raw_extensions organizer0) ps
        = filter (\<lambda>p. is_file fs p \<and> lower (suffix p) \<in> self_raw_extensions organizer0) ps" for ps
    unfolding exts by (rule filter_cong) (use rawset_not_jpg in blast)+
  then show ?thesis
    unfolding discover_files_lists dir by (simp only: exts)
qed

section \<open>Properties of deletion\<close>

lemma delete_loop_dry:
  "delete_loop True ps (d, fs, out)
     = (d @ ps, fs, out @ concat (map (\<lambda>p. println (''[DRY RUN] Would delete: '' @ str_path p)) ps))"
  by (induction ps arbitrary: d out) simp_all

lemma delete_files_dry:
  "delete_files ps True fs
     = (ps, fs, concat (map (\<lambda>p. println (''[DRY RUN] Would delete: '' @ str_path p)) ps))"
  by (simp add: delete_files_def delete_loop_dry)

lemma map_of_filter_fst:
  "map_of (filter (\<lambda>n. fst n \<notin> S) xs) p = (if p \<in> S then None else map_of xs p)"
  by (induction xs) auto

lemma map_of_filter_neq:
  "map_of (filter (\<lambda>n. fst n \<noteq> q) xs) p = (if p = q then None else map_of xs p)"
  using map_of_filter_fst [of "{q}" xs p] by simp

lemma unlink_Inr_iff:
  "unlink fs p = Inr fs' \<longleftrightarrow>
     is_file fs p \<and> p \<notin> set (locked fs) \<and> fs' = fs\<lparr>nodes := filter (\<lambda>n. fst n \<noteq> p) (nodes fs)\<rparr>"
  by (auto simp: unlink_def path_exists_def is_file_def)

lemma unlink_other:
  assumes "unlink fs q = Inr fs'" "p \<noteq> q"
  shows "unlink fs' p = (case unlink fs p of Inl e \<Rightarrow> Inl e
                         | Inr fs1 \<Rightarrow> Inr (fs1\<lparr>nodes := filter (\<lambda>n. fst n \<noteq> q) (nodes fs1)\<rparr>))"
proof -
  from assms(1) have fs': "fs' = fs\<lparr>nodes := filter (\<lambda>n. fst n \<noteq> q) (nodes fs)\<rparr>"
    by (simp add: unlink_Inr_iff)
  have "filter (\<lambda>n. fst n \<noteq> p) (filter (\<lambda>n. fst n \<noteq> q) (nodes fs))
          = filter (\<lambda>n. fst n \<noteq> q) (filter (\<lambda>n. fst n \<noteq> p) (nodes fs))"
    by (simp add: conj_commute)
  with assms(2) show ?thesis
    by (simp add: fs' unlink_def path_exists_def is_file_def map_of_filter_neq)
qed

lemma isl_unlink_other:
  assumes "unlink fs q = Inr fs'" "p \<noteq> q"
  shows "isl (unlink fs' p) = isl (unlink fs p)"
  using unlink_other [OF assms] by (simp split: sum.splits)

lemma delete_loop_live:
  "distinct ps \<Longrightarrow>
   delete_loop False ps (d, fs, out)
     = (d @ filter (\<lambda>p. \<not> isl (unlink fs p)) ps,
        fs\<lparr>nodes := filter (\<lambda>n. fst n \<notin> set (filter (\<lambda>p. \<not> isl (unlink fs p)) ps)) (nodes fs)\<rparr>,
        out @ concat (map (\<lambda>p. case unlink fs p of
                                   Inl e \<Rightarrow> println (''Error deleting '' @ str_path p @ '': '' @ str_exn e)
                                 | Inr _ \<Rightarrow> println (''Deleted: '' @ str_path p)) ps))"
proof (induction ps arbitrary: d fs out)
  case Nil
  show ?case by simp
next
  case (Cons p ps)
  then have dist: "distinct ps" and notin: "p \<notin> set ps" by simp_all
  show ?case
  proof (cases "unlink fs p")
    case (Inl e)
    then show ?thesis using Cons.IH [OF dist] by simp
  next
    case (Inr fs1)
    have other: "q \<in> set ps \<Longrightarrow> q \<noteq> p" for q using notin by auto
    have ok: "filter (\<lambda>q. \<not> isl (unlink fs1 q)) ps = filter (\<lambda>q. \<not> isl (unlink fs q)) ps"
      by (rule filter_cong) (simp_all add: isl_unlink_other [OF Inr other])
    have notice: "map (\<lambda>q. case unlink fs1 q of
                             Inl e \<Rightarrow> println (''Error deleting '' @ str_path q @ '': '' @ str_exn e)
                           | Inr _ \<Rightarrow> println (''Deleted: '' @ str_path q)) ps
                = map (\<lambda>q. case unlink fs q of
                             Inl e \<Rightarrow> println (''Error deleting '' @ str_path q @ '': '' @ str_exn e)
                           | Inr _ \<Rightarrow> println (''Deleted: '' @ str_path q)) ps"
      by (rule map_cong) (simp_all add: unlink_other [OF Inr other] split: sum.splits)
    have fs1: "fs1 = fs\<lparr>nodes := filter (\<lambda>n. fst n \<noteq> p) (nodes fs)\<rparr>"
      using Inr by (simp add: unlink_Inr_iff)
    have nodes: "filter (\<lambda>n. fst n \<notin> S) (nodes fs1) = filter (\<lambda>n. fst n \<notin> insert p S) (nodes fs)" for S
      by (simp add: fs1 conj_commute)
    show ?thesis
      using Cons.IH [OF dist, of "d @ [p]" fs1 "out @ println (''Deleted: '' @ str_path p)"]
      by (simp add: Inr ok notice nodes) (simp add: fs1)
  qed
qed

lemma delete_loop_nodes:
  "delete_loop False ps (d, fs, out) = (d', fs', out') \<Longrightarrow>
     \<exists>D. d' = d @ D \<and> set D \<subseteq> set ps \<and> locked fs' = locked fs
         \<and> nodes fs' = filter (\<lambda>n. fst n \<notin> set D) (nodes fs)"
proof (induction ps arbitrary: d fs out)
  case Nil
  then show ?case by simp
next
  case (Cons p ps)
  show ?case
  proof (cases "unlink fs p")
    case (Inl e)
    with Cons.prems have "delete_loop False ps (d, fs, out @ println (''Error deleting '' @ str_path p @ '': '' @ str_exn e)) = (d', fs', out')"
      by simp
    from Cons.IH [OF this] show ?thesis by auto
  next
    case (Inr fs1)
    with Cons.prems have "delete_loop False ps (d @ [p], fs1, out @ println (''Deleted: '' @ str_path p)) = (d', fs', out')"
      by simp
    from Cons.IH [OF this] obtain D where D: "d' = (d @ [p]) @ D" "set D \<subseteq> set ps"
      "locked fs' = locked fs1" "nodes fs' = filter (\<lambda>n. fst n \<notin> set D) (nodes fs1)" by blast
    have fs1: "fs1 = fs\<lparr>nodes := filter (\<lambda>n. fst n \<noteq> p) (nodes fs)\<rparr>"
      using Inr by (simp add: unlink_Inr_iff)
    have "d' = d @ (p # D)" "set (p # D) \<subseteq> set (p # ps)" "locked fs' = locked fs"
      "nodes fs' = filter (\<lambda>n. fst n \<notin> set (p # D)) (nodes fs)"
      using D by (auto simp: fs1 conj_commute)
    then show ?thesis by blast
  qed
qed

section \<open>Properties of the pipeline\<close>

lemma delete_files_nodes:
  assumes "delete_files ps False fs = (D, fs', out)"
  shows "set D \<subseteq> set ps \<and> locked fs' = locked fs
         \<and> nodes fs' = filter (\<lambda>n. fst n \<notin> set D) (nodes fs)"
  using delete_loop_nodes [of ps "[]" fs "[]" D fs' out] assms
  by (simp add: delete_files_def)

lemma organize_files_invalid:
  "lower anchor_type \<noteq> ''jpg'' \<Longrightarrow> lower anchor_type \<noteq> ''raw'' \<Longrightarrow>
   organize_files self anchor_type dry_run fs
     = Inl (ValueError (''Anchor type must be '' @ quote ''jpg'' @ '' or '' @ quote ''raw''))"
  by (simp add: organize_files_def)

lemma organize_files_valid:
  "lower anchor_type = ''jpg'' \<or> lower anchor_type = ''raw'' \<Longrightarrow>
   \<exists>r. organize_files self anchor_type dry_run fs = Inr r"
  by (auto simp: organize_files_def Let_def split: prod.splits)

lemma organize_files_live:
  assumes "organize_files self anchor_type False fs = Inr (res, self', fs', out)"
  shows "\<exists>D. res_deleted_files res = self_deleted_files self @ D
             \<and> set D \<subseteq> set (res_orphaned_files res)
             \<and> locked fs' = locked fs
             \<and> nodes fs' = filter (\<lambda>n. fst n \<notin> set D) (nodes fs)"
    and "res_orphaned_files res = find_orphaned_files (res_anchor_files res) (res_target_files res)"
    and "(res_anchor_files res, res_target_files res)
           = (if lower anchor_type = ''jpg'' then (self_jpg_files self, self_raw_files self)
              else (self_raw_files self, self_jpg_files self))"
proof -
  show "res_orphaned_files res = find_orphaned_files (res_anchor_files res) (res_target_files res)"
    using assms by (auto simp: organize_files_def Let_def split: if_splits prod.splits)
  show "(res_anchor_files res, res_target_files res)
           = (if lower anchor_type = ''jpg'' then (self_jpg_files self, self_raw_files self)
              else (self_raw_files self, self_jpg_files self))"
    using assms by (auto simp: organize_files_def Let_def split: if_splits prod.splits)
  show "\<exists>D. res_deleted_files res = self_deleted_files self @ D
             \<and> set D \<subseteq> set (res_orphaned_files res)
             \<and> locked fs' = locked fs
             \<and> nodes fs' = filter (\<lambda>n. fst n \<notin> set D) (nodes fs)"
  proof (cases "res_orphaned_files res = []")
    case True
    with assms have "res_deleted_files res = self_deleted_files self @ [] \<and> fs' = fs"
      by (auto simp: organize_files_def Let_def split: if_splits prod.splits)
    then show ?thesis by (intro exI [of _ "[]"]) simp
  next
    case False
    obtain D fs1 outd where del: "delete_files (res_orphaned_files res) False fs = (D, fs1, outd)"
      by (cases "delete_files (res_orphaned_files res) False fs") auto
    with assms False have "res_deleted_files res = self_deleted_files self @ D \<and> fs' = fs1"
      by (auto simp: organize_files_def Let_def split: if_splits prod.splits)
    with delete_files_nodes [OF del] show ?thesis by blast
  qed
qed

lemma organize_files_dry:
  assumes "organize_files self anchor_type True fs = Inr (res, self', fs', out)"
  shows "self' = self" and "fs' = fs" and "res_deleted_files res = self_deleted_files self"
    and "res_orphaned_files res = find_orphaned_files (res_anchor_files res) (res_target_files res)"
    and "(res_anchor_files res, res_target_files res)
           = (if lower anchor_type = ''jpg'' then (self_jpg_files self, self_raw_files self)
              else (self_raw_files self, self_jpg_files self))"
  using assms by (auto simp: organize_files_def Let_def split: if_splits prod.splits)

lemma main_organize_exit:
  "lower (args_anchor a) = ''jpg'' \<or> lower (args_anchor a) = ''raw'' \<Longrightarrow>
   fst (main_organize organizer a dry_run fs out) = 0"
  using organize_files_valid [of "args_anchor a" organizer dry_run fs]
  by (auto simp: main_organize_def split: prod.splits)

lemma main_exit_zero:
  assumes "path_exists fs (Path (args_directory a))"
    and "lower (args_anchor a) = ''jpg'' \<or> lower (args_anchor a) = ''raw''"
  shows "fst (main a (Some response) fs) = 0"
  using assms(1) main_organize_exit [OF assms(2)]
  by (simp add: main_def RawOrganizer_def Let_def split: prod.splits)

lemma rglob_after:
  "nodes fs' = filter (\<lambda>n. fst n \<notin> S) (nodes fs) \<Longrightarrow>
   rglob fs' root = filter (\<lambda>p. p \<notin> S) (rglob fs root)"
  by (simp add: rglob_def filter_map comp_def conj_commute)

lemma is_file_after:
  "nodes fs' = filter (\<lambda>n. fst n \<notin> S) (nodes fs) \<Longrightarrow>
   is_file fs' p = (p \<notin> S \<and> is_file fs p)"
  by (simp add: is_file_def map_of_filter_fst)

lemma path_exists_after:
  "nodes fs' = filter (\<lambda>n. fst n \<notin> S) (nodes fs) \<Longrightarrow>
   path_exists fs' p = (p \<notin> S \<and> path_exists fs p)"
  by (simp add: path_exists_def map_of_filter_fst)

lemma discover_after:
  assumes "nodes fs' = filter (\<lambda>n. fst n \<notin> S) (nodes fs)"
  shows "fst (discover_files self fs')
           = (filter (\<lambda>p. p \<notin> S) (fst (fst (discover_files self fs))),
              filter (\<lambda>p. p \<notin> S) (snd (fst (discover_files self fs))))"
  unfolding discover_files_lists rglob_after [OF assms] is_file_after [OF assms]
  by (auto intro: filter_cong)

lemma discover_disjoint:
  "set (fst (fst (discover_files self fs))) \<inter> set (snd (fst (discover_files self fs))) = {}"
  unfolding discover_files_lists by auto

lemma discover_below:
  "p \<in> set (fst (fst (discover_files self fs))) \<union> set (snd (fst (discover_files self fs)))
     \<Longrightarrow> below (self_input_directory self) p"
  unfolding discover_files_lists by (auto simp: rglob_def)

lemma discover_files_self:
  "discover_files self fs = ((jpg_files, raw_files), self', out) \<Longrightarrow>
   self_jpg_files self' = jpg_files \<and> self_raw_files self' = raw_files
   \<and> self_deleted_files self' = self_deleted_files self
   \<and> self_input_directory self' = self_input_directory self
   \<and> self_raw_extensions self' = self_raw_extensions self"
  by (auto simp: discover_files_def split: prod.splits)

lemma find_orphaned_files_after:
  assumes "set D \<subseteq> set (find_orphaned_files A T)" "set A \<inter> set T = {}"
  shows "find_orphaned_files (filter (\<lambda>p. p \<notin> set D) A) (filter (\<lambda>p. p \<notin> set D) T)
           = filter (\<lambda>p. p \<notin> set D) (find_orphaned_files A T)"
proof -
  have "set D \<subseteq> set T" using assms(1) by (auto simp: find_orphaned_files_filter)
  with assms(2) have "filter (\<lambda>p. p \<notin> set D) A = A"
    by (auto simp: filter_id_conv)
  then show ?thesis
    by (simp add: find_orphaned_files_filter conj_commute)
qed

lemma string_of_nat_0: "string_of_nat 0 = ''0''"
  by (simp add: string_of_nat.simps digit_char_def)

lemma concat_println:
  "concat (map (\<lambda>x. println (f x)) xs) = map (\<lambda>x. f x @ newline) xs"
  by (induction xs) (simp_all add: println_def)

lemma organize_files_dry_output:
  assumes "organize_files self anchor_type True fs = Inr (res, self', fs', out)"
  shows "out = [newline @ ''Organizing with '' @ res_anchor_type res @ '' files as anchor...'' @ newline,
                ''Anchor files: '' @ string_of_nat (length (res_anchor_files res)) @ newline,
                ''Target files: '' @ string_of_nat (length (res_target_files res)) @ newline,
                newline @ ''Found '' @ string_of_nat (length (res_orphaned_files res))
                  @ '' orphaned '' @ res_target_type res @ '' files:'' @ newline]
               @ map (\<lambda>file_path. ''  - '' @ str_path file_path @ newline) (res_orphaned_files res)
               @ (if res_orphaned_files res \<noteq> []
                  then [newline @ ''[DRY RUN] Would delete ''
                          @ string_of_nat (length (res_orphaned_files res))
                          @ '' orphaned '' @ res_target_type res @ '' files'' @ newline]
                  else [])"
  using assms
  by (auto simp: organize_files_def Let_def concat_println println_def split: if_splits)

lemma main_organize_dry_fs:
  "snd (snd (main_organize organizer a True fs out)) = fs"
proof (cases "organize_files organizer (args_anchor a) True fs")
  case (Inl e)
  then show ?thesis by (simp add: main_organize_def)
next
  case (Inr r)
  obtain res self' fs' out' where r: "r = (res, self', fs', out')" by (cases r) auto
  from organize_files_dry(2) [OF Inr [unfolded r]] show ?thesis
    by (simp add: main_organize_def Inr r)
qed

lemma main_dry_fs:
  "\<not> args_execute a \<Longrightarrow> snd (snd (main a stdin fs)) = fs"
  by (simp add: main_def main_organize_dry_fs split: sum.splits prod.splits)

lemma delete_files_live:
  assumes "distinct files_to_delete"
  shows "delete_files files_to_delete False fs
     = (filter (\<lambda>p. \<not> isl (unlink fs p)) files_to_delete,
        fs\<lparr>nodes := filter (\<lambda>n. fst n \<notin> set (filter (\<lambda>p. \<not> isl (unlink fs p)) files_to_delete))
                         (nodes fs)\<rparr>,
        map (\<lambda>p. case unlink fs p of
                    Inl e \<Rightarrow> ''Error deleting '' @ str_path p @ '': '' @ str_exn e @ newline
                  | Inr _ \<Rightarrow> ''Deleted: '' @ str_path p @ newline) files_to_delete)"
proof -
  have "concat (map (\<lambda>p. case unlink fs p of
                            Inl e \<Rightarrow> println (''Error deleting '' @ str_path p @ '': '' @ str_exn e)
                          | Inr _ \<Rightarrow> println (''Deleted: '' @ str_path p)) ps)
        = map (\<lambda>p. case unlink fs p of
                    Inl e \<Rightarrow> ''Error deleting '' @ str_path p @ '': '' @ str_exn e @ newline
                  | Inr _ \<Rightarrow> ''Deleted: '' @ str_path p @ newline) ps" for ps
    by (induction ps) (simp_all add: println_def split: sum.splits)
  then show ?thesis
    using delete_loop_live [OF assms, of "[]" fs "[]"] by (simp add: delete_files_def)
qed

lemma delete_files_Nil: "delete_files [] dry_run fs = ([], fs, [])"
  by (simp add: delete_files_def)

lemma organize_files_live_deleted:
  assumes "organize_files self anchor_type False fs = Inr (res, self', fs', out)"
  shows "res_deleted_files res
           = self_deleted_files self @ fst (delete_files (res_orphaned_files res) False fs)"
  using assms
  by (auto simp: organize_files_def Let_def delete_files_Nil split: if_splits prod.splits)

lemma discover_distinct:
  assumes "distinct (map fst (nodes fs))"
  shows "distinct (fst (fst (discover_files self fs)))"
    and "distinct (snd (fst (discover_files self fs)))"
  using assms unfolding discover_files_lists by (simp_all add: rglob_def)

lemma find_orphaned_files_distinct:
  "distinct target_files \<Longrightarrow> distinct (find_orphaned_files anchor_files target_files)"
  by (simp add: find_orphaned_files_filter)

lemma RawOrganizer_fresh:
  "RawOrganizer fs dir = Inr organizer0 \<Longrightarrow>
   path_exists fs (Path dir) \<and> self_input_directory organizer0 = Path dir
   \<and> self_deleted_files organizer0 = []"
  by (auto simp: RawOrganizer_def split: if_splits)

lemma pipeline_live:
  assumes init: "RawOrganizer fs dir = Inr organizer0"
    and scan: "discover_files organizer0 fs = ((jpg_files, raw_files), organizer, out1)"
    and run: "organize_files organizer anchor_type False fs = Inr (res, organizer', fs', out2)"
  shows "(res_anchor_files res, res_target_files res)
           = (if lower anchor_type = ''jpg'' then (jpg_files, raw_files) else (raw_files, jpg_files))"
    and "res_orphaned_files res = find_orphaned_files (res_anchor_files res) (res_target_files res)"
    and "res_deleted_files res = fst (delete_files (res_orphaned_files res) False fs)"
    and "set (res_deleted_files res) \<subseteq> set (res_orphaned_files res)"
    and "locked fs' = locked fs"
    and "nodes fs' = filter (\<lambda>n. fst n \<notin> set (res_deleted_files res)) (nodes fs)"
proof -
  from discover_files_self [OF scan] RawOrganizer_fresh [OF init]
  have self: "self_jpg_files organizer = jpg_files" "self_raw_files organizer = raw_files"
    "self_deleted_files organizer = []" by simp_all
  from organize_files_live(3) [OF run]
  show "(res_anchor_files res, res_target_files res)
           = (if lower anchor_type = ''jpg'' then (jpg_files, raw_files) else (raw_files, jpg_files))"
    by (simp add: self)
  show "res_orphaned_files res = find_orphaned_files (res_anchor_files res) (res_target_files res)"
    by (rule organize_files_live(2) [OF run])
  show "res_deleted_files res = fst (delete_files (res_orphaned_files res) False fs)"
    using organize_files_live_deleted [OF run] by (simp add: self)
  from organize_files_live(1) [OF run]
  show "set (res_deleted_files res) \<subseteq> set (res_orphaned_files res)"
    and "locked fs' = locked fs"
    and "nodes fs' = filter (\<lambda>n. fst n \<notin> set (res_deleted_files res)) (nodes fs)"
    by (auto simp: self)
qed

lemma pipeline_orphans_distinct:
  assumes init: "RawOrganizer fs dir = Inr organizer0"
    and scan: "discover_files organizer0 fs = ((jpg_files, raw_files), organizer, out1)"
    and run: "organize_files organizer anchor_type False fs = Inr (res, organizer', fs', out2)"
    and nodes: "distinct (map fst (nodes fs))"
  shows "distinct (res_orphaned_files res)"
proof -
  from discover_distinct [OF nodes, of organizer0] scan
  have "distinct jpg_files" "distinct raw_files" by simp_all
  then have "distinct (res_target_files res)"
    using pipeline_live(1) [OF init scan run] by (simp split: if_splits)
  then show ?thesis
    unfolding pipeline_live(2) [OF init scan run] by (rule find_orphaned_files_distinct)
qed

lemma rescan:
  assumes init: "RawOrganizer fs dir = Inr organizer0"
    and scan: "discover_files organizer0 fs = ((jpg_files, raw_files), organizer, out1)"
    and run: "organize_files organizer anchor_type False fs = Inr (res, organizer', fs', out2)"
    and scan': "discover_files organizer0 fs' = ((jpg_files', raw_files'), organizer2, out3)"
  shows "RawOrganizer fs' dir = Inr organizer0"
    and "jpg_files' = filter (\<lambda>p. p \<notin> set (res_deleted_files res)) jpg_files"
    and "raw_files' = filter (\<lambda>p. p \<notin> set (res_deleted_files res)) raw_files"
    and "find_orphaned_files
           (if lower anchor_type = ''jpg'' then jpg_files' else raw_files')
           (if lower anchor_type = ''jpg'' then raw_files' else jpg_files')
         = filter (\<lambda>p. p \<notin> set (res_deleted_files res)) (res_orphaned_files res)"
proof -
  let ?D = "res_deleted_files res"
  note live = pipeline_live [OF init scan run]
  have nodes: "nodes fs' = filter (\<lambda>n. fst n \<notin> set ?D) (nodes fs)" by (rule live(6))
  from discover_after [OF nodes, of organizer0] scan scan'
  show jpg': "jpg_files' = filter (\<lambda>p. p \<notin> set ?D) jpg_files"
    and raw': "raw_files' = filter (\<lambda>p. p \<notin> set ?D) raw_files"
    by simp_all
  have disj: "set jpg_files \<inter> set raw_files = {}"
    using discover_disjoint [of organizer0 fs] scan by simp
  have sub: "set ?D \<subseteq> set (find_orphaned_files (res_anchor_files res) (res_target_files res))"
    using live(4) live(2) by simp
  show "find_orphaned_files
           (if lower anchor_type = ''jpg'' then jpg_files' else raw_files')
           (if lower anchor_type = ''jpg'' then raw_files' else jpg_files')
         = filter (\<lambda>p. p \<notin> set ?D) (res_orphaned_files res)"
  proof (cases "lower anchor_type = ''jpg''")
    case True
    with live(1) have at: "res_anchor_files res = jpg_files" "res_target_files res = raw_files"
      by simp_all
    from find_orphaned_files_after [OF sub [unfolded at] disj] show ?thesis
      by (simp add: True jpg' raw' live(2) at)
  next
    case False
    with live(1) have at: "res_anchor_files res = raw_files" "res_target_files res = jpg_files"
      by simp_all
    from disj have disj': "set raw_files \<inter> set jpg_files = {}" by blast
    from find_orphaned_files_after [OF sub [unfolded at] disj'] show ?thesis
      by (simp add: False jpg' raw' live(2) at)
  qed
  have "Path dir \<notin> set ?D"
  proof
    assume "Path dir \<in> set ?D"
    with live(4) live(2) have "Path dir \<in> set (res_target_files res)"
      by (auto simp: find_orphaned_files_filter)
    with live(1) have "Path dir \<in> set jpg_files \<union> set raw_files" by (auto split: if_splits)
    with discover_below [of "Path dir" organizer0 fs] scan RawOrganizer_fresh [OF init]
    have "below (Path dir) (Path dir)" by simp
    then show False by (simp add: below_def)
  qed
  with init path_exists_after [OF nodes, of "Path dir"] show "RawOrganizer fs' dir = Inr organizer0"
    by (auto simp: RawOrganizer_def split: if_splits)
qed

section \<open>The example trees, run\<close>

lemma Path_d: "Path ''d'' = [''d'']"
  by code_simp

lemma photos_init: "RawOrganizer photos ''d'' = Inr organizer_d"
  by code_simp

lemma photos_scan:
  "discover_files organizer_d photos
     = (([[''d'', ''a.jpg'']], [[''d'', ''a.cr2''], [''d'', ''b.cr2''], [''d'', ''c.cr2'']]),
        photos_scanned,
        [''Scanning directory: d'' @ newline, ''Found 1 JPG files'' @ newline,
         ''Found 3 RAW files'' @ newline])"
  by code_simp

lemma photos_live:
  "organize_files photos_scanned ''jpg'' False photos
     = Inr (\<lparr>res_anchor_files = [[''d'', ''a.jpg'']],
             res_target_files = [[''d'', ''a.cr2''], [''d'', ''b.cr2''], [''d'', ''c.cr2'']],
             res_orphaned_files = [[''d'', ''b.cr2''], [''d'', ''c.cr2'']],
             res_deleted_files = [[''d'', ''c.cr2'']],
             res_anchor_type = ''JPG'',
             res_target_type = ''RAW''\<rparr>,
            photos_scanned\<lparr>self_deleted_files := [[''d'', ''c.cr2'']]\<rparr>,
            photos\<lparr>nodes := [([''d''], Directory), ([''d'', ''a.jpg''], RegularFile),
                               ([''d'', ''a.cr2''], RegularFile), ([''d'', ''b.cr2''], RegularFile)]\<rparr>,
            [newline @ ''Organizing with JPG files as anchor...'' @ newline,
             ''Anchor files: 1'' @ newline,
             ''Target files: 3'' @ newline,
             newline @ ''Found 2 orphaned RAW files:'' @ newline,
             ''  - d/b.cr2'' @ newline,
             ''  - d/c.cr2'' @ newline,
             newline @ ''Deleting 2 orphaned RAW files...'' @ newline,
             ''Error deleting d/b.cr2: [Errno 13] Permission denied: '' @ quote ''d/b.cr2'' @ newline,
             ''Deleted: d/c.cr2'' @ newline])"
  by code_simp

lemma photos_dry:
  "organize_files photos_scanned ''jpg'' True photos
     = Inr (\<lparr>res_anchor_files = [[''d'', ''a.jpg'']],
             res_target_files = [[''d'', ''a.cr2''], [''d'', ''b.cr2''], [''d'', ''c.cr2'']],
             res_orphaned_files = [[''d'', ''b.cr2''], [''d'', ''c.cr2'']],
             res_deleted_files = [],
             res_anchor_type = ''JPG'',
             res_target_type = ''RAW''\<rparr>,
            photos_scanned, photos,
            [newline @ ''Organizing with JPG files as anchor...'' @ newline,
             ''Anchor files: 1'' @ newline,
             ''Target files: 3'' @ newline,
             newline @ ''Found 2 orphaned RAW files:'' @ newline,
             ''  - d/b.cr2'' @ newline,
             ''  - d/c.cr2'' @ newline,
             newline @ ''[DRY RUN] Would delete 2 orphaned RAW files'' @ newline])"
  by code_simp

section \<open>The claims\<close>

text \<open>
  C1. For every anchor list and target list, \<open>find_orphaned_files\<close> returns exactly the
  targets whose stem is not the stem of any anchor, in the order of the target list. So no
  target whose stem occurs among the anchor stems is an orphan, and every target whose stem
  occurs among no anchor stem is one.
\<close>

theorem orphans_are_unmatched_targets:
  "find_orphaned_files anchor_files target_files
     = filter (\<lambda>t. stem t \<notin> stem ` set anchor_files) target_files
   \<and> set (find_orphaned_files anchor_files target_files)
     = {t \<in> set target_files. stem t \<notin> stem ` set anchor_files}"
proof -
  have "get_base_name = stem" by (rule ext) (simp add: get_base_name_def)
  then show ?thesis using find_orphaned_files_filter [of anchor_files target_files] by simp
qed

text \<open>
  C2, as stated, fails for the dry-run pipeline: on the example tree, whose orphans are
  \<open>d/b.cr2\<close> and \<open>d/c.cr2\<close>, \<open>organize_files\<close> in dry-run mode returns an empty
  deleted list and prints one summary notice, no notice per orphan.
\<close>

theorem dry_run_reports_no_deletion:
  "RawOrganizer photos ''d'' = Inr organizer_d
   \<and> fst (snd (discover_files organizer_d photos)) = photos_scanned
   \<and> organize_files photos_scanned ''jpg'' True photos
       = Inr (\<lparr>res_anchor_files = [[''d'', ''a.jpg'']],
               res_target_files = [[''d'', ''a.cr2''], [''d'', ''b.cr2''], [''d'', ''c.cr2'']],
               res_orphaned_files = [[''d'', ''b.cr2''], [''d'', ''c.cr2'']],
               res_deleted_files = [],
               res_anchor_type = ''JPG'',
               res_target_type = ''RAW''\<rparr>,
              photos_scanned, photos,
              [newline @ ''Organizing with JPG files as anchor...'' @ newline,
               ''Anchor files: 1'' @ newline,
               ''Target files: 3'' @ newline,
               newline @ ''Found 2 orphaned RAW files:'' @ newline,
               ''  - d/b.cr2'' @ newline,
               ''  - d/c.cr2'' @ newline,
               newline @ ''[DRY RUN] Would delete 2 orphaned RAW files'' @ newline])"
  using photos_init photos_scan photos_dry by simp

text \<open>
  C2, amended. \<open>delete_files\<close> called with \<open>dry_run\<close> true prints a "would delete" notice
  for every file it is given, returns all of them as the deleted list and leaves the file
  system unchanged. The dry-run pipeline does not call it: \<open>organize_files\<close> with
  \<open>dry_run\<close> true leaves the organizer and the file system unchanged, reports the deleted
  list it already had, and prints one summary "would delete" notice when there are orphans.
  A run of \<open>main\<close> without \<open>--execute\<close> leaves the file system unchanged.
\<close>

theorem dry_run_deletes_nothing:
  "delete_files files_to_delete True fs
     = (files_to_delete, fs,
        map (\<lambda>file_path. ''[DRY RUN] Would delete: '' @ str_path file_path @ newline) files_to_delete)
   \<and> (organize_files self anchor_type True fs = Inr (res, self', fs', out) \<longrightarrow>
        self' = self \<and> fs' = fs \<and> res_deleted_files res = self_deleted_files self
        \<and> out = [newline @ ''Organizing with '' @ res_anchor_type res @ '' files as anchor...'' @ newline,
                  ''Anchor files: '' @ string_of_nat (length (res_anchor_files res)) @ newline,
                  ''Target files: '' @ string_of_nat (length (res_target_files res)) @ newline,
                  newline @ ''Found '' @ string_of_nat (length (res_orphaned_files res))
                    @ '' orphaned '' @ res_target_type res @ '' files:'' @ newline]
                 @ map (\<lambda>file_path. ''  - '' @ str_path file_path @ newline) (res_orphaned_files res)
                 @ (if res_orphaned_files res \<noteq> []
                    then [newline @ ''[DRY RUN] Would delete ''
                            @ string_of_nat (length (res_orphaned_files res))
                            @ '' orphaned '' @ res_target_type res @ '' files'' @ newline]
                    else []))
   \<and> (\<not> args_execute a \<longrightarrow> snd (snd (main a stdin fs)) = fs)"
proof -
  have "delete_files files_to_delete True fs
     = (files_to_delete, fs,
        map (\<lambda>file_path. ''[DRY RUN] Would delete: '' @ str_path file_path @ newline) files_to_delete)"
    by (simp add: delete_files_dry concat_println)
  moreover have "organize_files self anchor_type True fs = Inr (res, self', fs', out) \<Longrightarrow>
        self' = self \<and> fs' = fs \<and> res_deleted_files res = self_deleted_files self"
    using organize_files_dry(1-3) [of self anchor_type fs res self' fs' out] by simp
  moreover note organize_files_dry_output [of self anchor_type fs res self' fs' out]
    main_dry_fs [of a stdin fs]
  ultimately show ?thesis by blast
qed

theorem dry_run_deletes_nothing_witness:
  "delete_files [[''d'', ''b.cr2''], [''d'', ''c.cr2'']] True photos
     = ([[''d'', ''b.cr2''], [''d'', ''c.cr2'']], photos,
        [''[DRY RUN] Would delete: d/b.cr2'' @ newline, ''[DRY RUN] Would delete: d/c.cr2'' @ newline])
   \<and> fst (snd (projr (organize_files photos_scanned ''jpg'' True photos))) = photos_scanned
   \<and> fst (snd (snd (projr (organize_files photos_scanned ''jpg'' True photos)))) = photos
   \<and> res_deleted_files (fst (projr (organize_files photos_scanned ''jpg'' True photos)))
       = self_deleted_files photos_scanned
   \<and> snd (snd (main \<lparr>args_directory = ''d'', args_anchor = ''jpg'',
                      args_dry_run = True, args_execute = False\<rparr> None photos)) = photos"
proof -
  let ?a = "\<lparr>args_directory = ''d'', args_anchor = ''jpg'', args_dry_run = True, args_execute = False\<rparr>"
  let ?files = "[[''d'', ''b.cr2''], [''d'', ''c.cr2'']]"
  let ?res = "\<lparr>res_anchor_files = [[''d'', ''a.jpg'']],
               res_target_files = [[''d'', ''a.cr2''], [''d'', ''b.cr2''], [''d'', ''c.cr2'']],
               res_orphaned_files = [[''d'', ''b.cr2''], [''d'', ''c.cr2'']],
               res_deleted_files = [],
               res_anchor_type = ''JPG'',
               res_target_type = ''RAW''\<rparr>"
  let ?out = "[newline @ ''Organizing with JPG files as anchor...'' @ newline,
               ''Anchor files: 1'' @ newline,
               ''Target files: 3'' @ newline,
               newline @ ''Found 2 orphaned RAW files:'' @ newline,
               ''  - d/b.cr2'' @ newline,
               ''  - d/c.cr2'' @ newline,
               newline @ ''[DRY RUN] Would delete 2 orphaned RAW files'' @ newline]"
  have h: "\<not> args_execute ?a" by simp
  have run: "organize_files photos_scanned ''jpg'' True photos
               = Inr (?res, photos_scanned, photos, ?out)"
    by (rule photos_dry)
  from dry_run_deletes_nothing [of ?files photos photos_scanned "''jpg''" ?res photos_scanned
         photos ?out ?a None] h run
  have "delete_files ?files True photos
          = (?files, photos,
             map (\<lambda>file_path. ''[DRY RUN] Would delete: '' @ str_path file_path @ newline) ?files)"
    and "res_deleted_files ?res = self_deleted_files photos_scanned"
    and "snd (snd (main ?a None photos)) = photos"
    by blast+
  then show ?thesis by (simp add: photos_dry)
qed

text \<open>
  C3, as stated, fails: with one anchor \<open>d/a.jpg\<close> and no target, \<open>find_matches\<close>
  returns the empty set, not the set of the anchor stems.
\<close>

theorem find_matches_misses_unmatched_anchor:
  "find_matches [[''d'', ''a.jpg'']] [] \<noteq> stem ` set [[''d'', ''a.jpg'']]"
  by (simp add: find_matches_def)

text \<open>
  C3, amended. \<open>find_matches\<close> returns the set of the stems that occur both among the
  anchors and among the targets: the anchor stems that some target has.
\<close>

theorem find_matches_common_stems:
  "find_matches anchor_files target_files = stem ` set anchor_files \<inter> stem ` set target_files"
proof -
  have "get_base_name = stem" by (rule ext) (simp add: get_base_name_def)
  then show ?thesis using find_matches_eq [of anchor_files target_files] by simp
qed

text \<open>
  C4. In live deletion a failing \<open>unlink\<close> is caught: for a list of distinct files,
  \<open>delete_files\<close> returns exactly the files whose removal succeeds, prints for every file
  in order either "Deleted" or an error notice with the file and the reason, and removes
  exactly the returned files. In a live run on a tree whose paths are distinct, the reported
  deleted list is the orphans whose removal succeeds. Whatever \<open>unlink\<close> does, \<open>main\<close>
  exits with code 0 once the directory exists, the anchor is valid and a line was read.
\<close>

theorem failed_deletion_is_skipped:
  "(distinct files_to_delete \<longrightarrow>
      delete_files files_to_delete False fs
        = (filter (\<lambda>p. \<not> isl (unlink fs p)) files_to_delete,
           fs\<lparr>nodes := filter (\<lambda>n. fst n \<notin> set (filter (\<lambda>p. \<not> isl (unlink fs p)) files_to_delete))
                            (nodes fs)\<rparr>,
           map (\<lambda>p. case unlink fs p of
                       Inl e \<Rightarrow> ''Error deleting '' @ str_path p @ '': '' @ str_exn e @ newline
                     | Inr _ \<Rightarrow> ''Deleted: '' @ str_path p @ newline) files_to_delete))
   \<and> (distinct (map fst (nodes fs))
        \<and> RawOrganizer fs dir = Inr organizer0
        \<and> discover_files organizer0 fs = ((jpg_files, raw_files), organizer, out1)
        \<and> organize_files organizer anchor_type False fs = Inr (res, organizer', fs', out2) \<longrightarrow>
        res_deleted_files res = filter (\<lambda>p. \<not> isl (unlink fs p)) (res_orphaned_files res))
   \<and> (path_exists fs (Path (args_directory a))
        \<and> (lower (args_anchor a) = ''jpg'' \<or> lower (args_anchor a) = ''raw'') \<longrightarrow>
        fst (main a (Some response) fs) = 0)"
proof -
  have "res_deleted_files res = filter (\<lambda>p. \<not> isl (unlink fs p)) (res_orphaned_files res)"
    if nodes: "distinct (map fst (nodes fs))"
      and init: "RawOrganizer fs dir = Inr organizer0"
      and scan: "discover_files organizer0 fs = ((jpg_files, raw_files), organizer, out1)"
      and run: "organize_files organizer anchor_type False fs = Inr (res, organizer', fs', out2)"
    using pipeline_live(3) [OF init scan run]
      delete_files_live [OF pipeline_orphans_distinct [OF init scan run nodes], of fs]
    by simp
  moreover note delete_files_live [of files_to_delete fs] main_exit_zero [of fs a response]
  ultimately show ?thesis by blast
qed

theorem failed_deletion_is_skipped_witness:
  "isl (unlink photos [''d'', ''b.cr2''])
   \<and> \<not> isl (unlink photos [''d'', ''c.cr2''])
   \<and> delete_files [[''d'', ''b.cr2''], [''d'', ''c.cr2'']] False photos
       = ([[''d'', ''c.cr2'']],
          photos\<lparr>nodes := [([''d''], Directory), ([''d'', ''a.jpg''], RegularFile),
                             ([''d'', ''a.cr2''], RegularFile), ([''d'', ''b.cr2''], RegularFile)]\<rparr>,
          [''Error deleting d/b.cr2: [Errno 13] Permission denied: '' @ quote ''d/b.cr2'' @ newline,
           ''Deleted: d/c.cr2'' @ newline])
   \<and> res_orphaned_files (fst (projr (organize_files photos_scanned ''jpg'' False photos)))
       = [[''d'', ''b.cr2''], [''d'', ''c.cr2'']]
   \<and> res_deleted_files (fst (projr (organize_files photos_scanned ''jpg'' False photos)))
       = [[''d'', ''c.cr2'']]
   \<and> fst (main \<lparr>args_directory = ''d'', args_anchor = ''jpg'',
                  args_dry_run = True, args_execute = True\<rparr> (Some ''yes'') photos) = 0"
proof -
  let ?a = "\<lparr>args_directory = ''d'', args_anchor = ''jpg'', args_dry_run = True, args_execute = True\<rparr>"
  let ?b = "[''d'', ''b.cr2'']" and ?c = "[''d'', ''c.cr2'']"
  let ?jpg = "[[''d'', ''a.jpg'']]" and ?raw = "[[''d'', ''a.cr2''], [''d'', ''b.cr2''], [''d'', ''c.cr2'']]"
  let ?fs' = "photos\<lparr>nodes := [([''d''], Directory), ([''d'', ''a.jpg''], RegularFile),
                                  ([''d'', ''a.cr2''], RegularFile), ([''d'', ''b.cr2''], RegularFile)]\<rparr>"
  let ?res = "\<lparr>res_anchor_files = ?jpg, res_target_files = ?raw, res_orphaned_files = [?b, ?c],
               res_deleted_files = [?c], res_anchor_type = ''JPG'', res_target_type = ''RAW''\<rparr>"
  let ?out1 = "[''Scanning directory: d'' @ newline, ''Found 1 JPG files'' @ newline,
                ''Found 3 RAW files'' @ newline]"
  let ?out2 = "[newline @ ''Organizing with JPG files as anchor...'' @ newline,
                ''Anchor files: 1'' @ newline,
                ''Target files: 3'' @ newline,
                newline @ ''Found 2 orphaned RAW files:'' @ newline,
                ''  - d/b.cr2'' @ newline,
                ''  - d/c.cr2'' @ newline,
                newline @ ''Deleting 2 orphaned RAW files...'' @ newline,
                ''Error deleting d/b.cr2: [Errno 13] Permission denied: '' @ quote ''d/b.cr2'' @ newline,
                ''Deleted: d/c.cr2'' @ newline]"
  have d1: "distinct [?b, ?c]" by simp
  have u: "unlink photos ?b
             = Inl (PermissionError (''[Errno 13] Permission denied: '' @ quote ''d/b.cr2''))"
    "unlink photos ?c = Inr ?fs'"
    by code_simp+
  have n: "nodes photos = [([''d''], Directory), ([''d'', ''a.jpg''], RegularFile),
                           ([''d'', ''a.cr2''], RegularFile), ([''d'', ''b.cr2''], RegularFile),
                           ([''d'', ''c.cr2''], RegularFile)]"
    by (simp add: photos_def)
  have d2: "distinct (map fst (nodes photos))" by (simp add: n)
  have scan: "discover_files organizer_d photos = ((?jpg, ?raw), photos_scanned, ?out1)"
    by (rule photos_scan)
  have run: "organize_files photos_scanned ''jpg'' False photos
               = Inr (?res, photos_scanned\<lparr>self_deleted_files := [?c]\<rparr>, ?fs', ?out2)"
    by (rule photos_live)
  have ex: "path_exists photos (Path (args_directory ?a))
            \<and> (lower (args_anchor ?a) = ''jpg'' \<or> lower (args_anchor ?a) = ''raw'')"
    by code_simp
  from failed_deletion_is_skipped [of "[?b, ?c]" photos "''d''" organizer_d ?jpg ?raw
         photos_scanned ?out1 "''jpg''" ?res "photos_scanned\<lparr>self_deleted_files := [?c]\<rparr>"
         ?fs' ?out2 ?a "''yes''"]
    d1 d2 photos_init scan run ex
  have "delete_files [?b, ?c] False photos
          = (filter (\<lambda>p. \<not> isl (unlink photos p)) [?b, ?c],
             photos\<lparr>nodes := filter (\<lambda>n. fst n \<notin> set (filter (\<lambda>p. \<not> isl (unlink photos p)) [?b, ?c]))
                                (nodes photos)\<rparr>,
             map (\<lambda>p. case unlink photos p of
                         Inl e \<Rightarrow> ''Error deleting '' @ str_path p @ '': '' @ str_exn e @ newline
                       | Inr _ \<Rightarrow> ''Deleted: '' @ str_path p @ newline) [?b, ?c])"
    and "res_deleted_files ?res = filter (\<lambda>p. \<not> isl (unlink photos p)) (res_orphaned_files ?res)"
    and "fst (main ?a (Some ''yes'') photos) = 0"
    by blast+
  then show ?thesis
    by (simp add: u n photos_live)
qed

text \<open>
  C5. After a live run, a new run on the tree it leaves finds the directory again, scans
  none of the deleted files, and computes as orphans the earlier orphans that were not
  deleted; when the run deleted every orphan, the new orphan list is empty.
\<close>

theorem deleted_orphans_stay_gone:
  assumes "RawOrganizer fs dir = Inr organizer0"
    and "discover_files organizer0 fs = ((jpg_files, raw_files), organizer, out1)"
    and "organize_files organizer anchor_type False fs = Inr (res, organizer', fs', out2)"
    and "discover_files organizer0 fs' = ((jpg_files', raw_files'), organizer2, out3)"
  shows "RawOrganizer fs' dir = Inr organizer0
         \<and> set (res_deleted_files res) \<subseteq> set (res_orphaned_files res)
         \<and> set (res_deleted_files res) \<inter> (set jpg_files' \<union> set raw_files') = {}
         \<and> find_orphaned_files
              (if lower anchor_type = ''jpg'' then jpg_files' else raw_files')
              (if lower anchor_type = ''jpg'' then raw_files' else jpg_files')
            = filter (\<lambda>p. p \<notin> set (res_deleted_files res)) (res_orphaned_files res)
         \<and> (set (res_deleted_files res) = set (res_orphaned_files res) \<longrightarrow>
              find_orphaned_files
                (if lower anchor_type = ''jpg'' then jpg_files' else raw_files')
                (if lower anchor_type = ''jpg'' then raw_files' else jpg_files') = [])"
proof -
  note r = rescan [OF assms]
  have gone: "set (res_deleted_files res) \<inter> (set jpg_files' \<union> set raw_files') = {}"
    unfolding r(2) r(3) by auto
  have empty: "set (res_deleted_files res) = set (res_orphaned_files res) \<longrightarrow>
                 filter (\<lambda>p. p \<notin> set (res_deleted_files res)) (res_orphaned_files res) = []"
    by (simp add: filter_empty_conv)
  from r(1) pipeline_live(4) [OF assms(1-3)] gone r(4) empty show ?thesis
    by simp
qed

theorem deleted_orphans_stay_gone_witness:
  "RawOrganizer photos_unlocked ''d'' = Inr organizer_d
   \<and> discover_files organizer_d photos_unlocked
       = (([[''d'', ''a.jpg'']], [[''d'', ''a.cr2''], [''d'', ''b.cr2''], [''d'', ''c.cr2'']]),
          photos_scanned,
          [''Scanning directory: d'' @ newline, ''Found 1 JPG files'' @ newline,
           ''Found 3 RAW files'' @ newline])
   \<and> organize_files photos_scanned ''jpg'' False photos_unlocked
       = Inr (\<lparr>res_anchor_files = [[''d'', ''a.jpg'']],
               res_target_files = [[''d'', ''a.cr2''], [''d'', ''b.cr2''], [''d'', ''c.cr2'']],
               res_orphaned_files = [[''d'', ''b.cr2''], [''d'', ''c.cr2'']],
               res_deleted_files = [[''d'', ''b.cr2''], [''d'', ''c.cr2'']],
               res_anchor_type = ''JPG'',
               res_target_type = ''RAW''\<rparr>,
              photos_scanned\<lparr>self_deleted_files := [[''d'', ''b.cr2''], [''d'', ''c.cr2'']]\<rparr>,
              \<lparr>nodes = [([''d''], Directory), ([''d'', ''a.jpg''], RegularFile),
                        ([''d'', ''a.cr2''], RegularFile)],
                 locked = []\<rparr>,
              [newline @ ''Organizing with JPG files as anchor...'' @ newline,
               ''Anchor files: 1'' @ newline,
               ''Target files: 3'' @ newline,
               newline @ ''Found 2 orphaned RAW files:'' @ newline,
               ''  - d/b.cr2'' @ newline,
               ''  - d/c.cr2'' @ newline,
               newline @ ''Deleting 2 orphaned RAW files...'' @ newline,
               ''Deleted: d/b.cr2'' @ newline,
               ''Deleted: d/c.cr2'' @ newline])
   \<and> discover_files organizer_d
        \<lparr>nodes = [([''d''], Directory), ([''d'', ''a.jpg''], RegularFile),
                  ([''d'', ''a.cr2''], RegularFile)],
           locked = []\<rparr>
       = (([[''d'', ''a.jpg'']], [[''d'', ''a.cr2'']]),
          organizer_d\<lparr>self_jpg_files := [[''d'', ''a.jpg'']], self_raw_files := [[''d'', ''a.cr2'']]\<rparr>,
          [''Scanning directory: d'' @ newline, ''Found 1 JPG files'' @ newline,
           ''Found 1 RAW files'' @ newline])
   \<and> find_orphaned_files [[''d'', ''a.jpg'']] [[''d'', ''a.cr2'']] = []"
proof -
  let ?fs' = "\<lparr>nodes = [([''d''], Directory), ([''d'', ''a.jpg''], RegularFile),
                        ([''d'', ''a.cr2''], RegularFile)],
                 locked = []\<rparr>"
  have h1: "RawOrganizer photos_unlocked ''d'' = Inr organizer_d"
    by code_simp
  have h2: "discover_files organizer_d photos_unlocked
       = (([[''d'', ''a.jpg'']], [[''d'', ''a.cr2''], [''d'', ''b.cr2''], [''d'', ''c.cr2'']]),
          photos_scanned,
          [''Scanning directory: d'' @ newline, ''Found 1 JPG files'' @ newline,
           ''Found 3 RAW files'' @ newline])"
    by code_simp
  have h3: "organize_files photos_scanned ''jpg'' False photos_unlocked
       = Inr (\<lparr>res_anchor_files = [[''d'', ''a.jpg'']],
               res_target_files = [[''d'', ''a.cr2''], [''d'', ''b.cr2''], [''d'', ''c.cr2'']],
               res_orphaned_files = [[''d'', ''b.cr2''], [''d'', ''c.cr2'']],
               res_deleted_files = [[''d'', ''b.cr2''], [''d'', ''c.cr2'']],
               res_anchor_type = ''JPG'',
               res_target_type = ''RAW''\<rparr>,
              photos_scanned\<lparr>self_deleted_files := [[''d'', ''b.cr2''], [''d'', ''c.cr2'']]\<rparr>,
              ?fs',
              [newline @ ''Organizing with JPG files as anchor...'' @ newline,
               ''Anchor files: 1'' @ newline,
               ''Target files: 3'' @ newline,
               newline @ ''Found 2 orphaned RAW files:'' @ newline,
               ''  - d/b.cr2'' @ newline,
               ''  - d/c.cr2'' @ newline,
               newline @ ''Deleting 2 orphaned RAW files...'' @ newline,
               ''Deleted: d/b.cr2'' @ newline,
               ''Deleted: d/c.cr2'' @ newline])"
    by code_simp
  have h4: "discover_files organizer_d ?fs'
       = (([[''d'', ''a.jpg'']], [[''d'', ''a.cr2'']]),
          organizer_d\<lparr>self_jpg_files := [[''d'', ''a.jpg'']], self_raw_files := [[''d'', ''a.cr2'']]\<rparr>,
          [''Scanning directory: d'' @ newline, ''Found 1 JPG files'' @ newline,
           ''Found 1 RAW files'' @ newline])"
    by code_simp
  have jpg: "lower ''jpg'' = ''jpg''" by (simp add: lower_def lower_char_def)
  from deleted_orphans_stay_gone [OF h1 h2 h3 h4] h1 h2 h3 h4 jpg
  show ?thesis by simp
qed

text \<open>
  C6. In live mode, once the scan found a file, \<open>main\<close> goes on to \<open>organize_files\<close>
  only if the line read lower-cases to \<open>yes\<close>. For any other line it prints
  "Operation cancelled." after the scan output, the mode notice and the prompt, exits with
  code 0 and leaves the file system unchanged: nothing is organized or deleted.
\<close>

theorem confirmation_gate:
  assumes "RawOrganizer fs (args_directory a) = Inr organizer0"
    and "discover_files organizer0 fs = ((jpg_files, raw_files), organizer, out)"
    and "jpg_files \<noteq> [] \<or> raw_files \<noteq> []"
    and "args_execute a"
  shows "main a (Some response) fs
           = (if lower response = ''yes''
              then main_organize organizer a False fs
                     (out @ [newline @ ''[EXECUTION MODE] - Files will be deleted!'' @ newline,
                             ''Are you sure you want to proceed? (yes/no): ''])
              else (0, out @ [newline @ ''[EXECUTION MODE] - Files will be deleted!'' @ newline,
                              ''Are you sure you want to proceed? (yes/no): '',
                              ''Operation cancelled.'' @ newline], fs))"
  using assms(3,4) by (auto simp: main_def assms(1,2) println_def)

theorem confirmation_gate_witness:
  "RawOrganizer photos ''d'' = Inr organizer_d
   \<and> discover_files organizer_d photos
       = (([[''d'', ''a.jpg'']], [[''d'', ''a.cr2''], [''d'', ''b.cr2''], [''d'', ''c.cr2'']]),
          organizer_d\<lparr>self_jpg_files := [[''d'', ''a.jpg'']],
                      self_raw_files := [[''d'', ''a.cr2''], [''d'', ''b.cr2''], [''d'', ''c.cr2'']]\<rparr>,
          [''Scanning directory: d'' @ newline, ''Found 1 JPG files'' @ newline,
           ''Found 3 RAW files'' @ newline])
   \<and> main \<lparr>args_directory = ''d'', args_anchor = ''jpg'', args_dry_run = True, args_execute = True\<rparr>
        (Some ''no'') photos
     = (0, [''Scanning directory: d'' @ newline, ''Found 1 JPG files'' @ newline,
            ''Found 3 RAW files'' @ newline,
            newline @ ''[EXECUTION MODE] - Files will be deleted!'' @ newline,
            ''Are you sure you want to proceed? (yes/no): '',
            ''Operation cancelled.'' @ newline], photos)"
proof -
  let ?a = "\<lparr>args_directory = ''d'', args_anchor = ''jpg'', args_dry_run = True, args_execute = True\<rparr>"
  have h1: "RawOrganizer photos (args_directory ?a) = Inr organizer_d"
    by code_simp
  have h2: "discover_files organizer_d photos
       = (([[''d'', ''a.jpg'']], [[''d'', ''a.cr2''], [''d'', ''b.cr2''], [''d'', ''c.cr2'']]),
          organizer_d\<lparr>self_jpg_files := [[''d'', ''a.jpg'']],
                      self_raw_files := [[''d'', ''a.cr2''], [''d'', ''b.cr2''], [''d'', ''c.cr2'']]\<rparr>,
          [''Scanning directory: d'' @ newline, ''Found 1 JPG files'' @ newline,
           ''Found 3 RAW files'' @ newline])"
    by code_simp
  have h3: "[[''d'', ''a.jpg'']] \<noteq> [] \<or> [[''d'', ''a.cr2''], [''d'', ''b.cr2''], [''d'', ''c.cr2'']] \<noteq> []"
    by simp
  have h4: "args_execute ?a" by simp
  have no: "lower ''no'' \<noteq> ''yes''" by (simp add: lower_def)
  from confirmation_gate [OF h1 h2 h3 h4, of "''no''"] no h1 h2
  show ?thesis by simp
qed

text \<open>
  C7. The scan of a new organizer puts a regular file below the directory into the JPEG
  list when its lower-cased suffix is \<open>.jpg\<close> or \<open>.jpeg\<close>, into the RAW list when it is
  one of the ten RAW suffixes, and into neither list otherwise. The stem is the file name
  with the suffix cut off, unchanged, and orphans are found by equality of stems, so
  \<open>IMG_001.jpg\<close> does not match \<open>img_001.cr2\<close>.
\<close>

theorem classification_by_extension:
  assumes "RawOrganizer fs dir = Inr organizer0"
  shows "fst (discover_files organizer0 fs)
           = (filter (\<lambda>p. is_file fs p \<and> lower (suffix p) \<in> {''.jpg'', ''.jpeg''}) (rglob fs (Path dir)),
              filter (\<lambda>p. is_file fs p \<and> lower (suffix p) \<in>
                        {''.cr2'', ''.cr3'', ''.nef'', ''.arw'', ''.dng'',
                         ''.orf'', ''.rw2'', ''.pef'', ''.srw'', ''.x3f''}) (rglob fs (Path dir)))
         \<and> get_base_name p @ suffix p = path_name p
         \<and> find_orphaned_files anchor_files target_files
             = filter (\<lambda>t. get_base_name t \<notin> get_base_name ` set anchor_files) target_files
         \<and> find_orphaned_files [d1 @ [''IMG_001.jpg'']] [d2 @ [''img_001.cr2'']]
             = [d2 @ [''img_001.cr2'']]"
proof -
  have "stem (d1 @ [''IMG_001'' @ ''.'' @ ''jpg'']) = ''IMG_001''"
    by (rule stem_last_dot) simp_all
  moreover have "stem (d2 @ [''img_001'' @ ''.'' @ ''cr2'']) = ''img_001''"
    by (rule stem_last_dot) simp_all
  ultimately have "find_orphaned_files [d1 @ [''IMG_001.jpg'']] [d2 @ [''img_001.cr2'']]
             = [d2 @ [''img_001.cr2'']]"
    by (simp add: find_orphaned_files_filter get_base_name_def)
  then show ?thesis
    using discover_files_fresh [OF assms]
    by (simp add: get_base_name_def stem_suffix_name find_orphaned_files_filter)
qed

theorem classification_by_extension_witness:
  "RawOrganizer mixed_case ''d'' = Inr organizer_d
   \<and> fst (discover_files organizer_d mixed_case)
       = ([[''d'', ''IMG.JPG''], [''d'', ''img.jpg''], [''d'', ''sub'', ''a.b.jpg'']],
          [[''d'', ''x.CR2''], [''d'', ''sub'', ''y.Nef'']])
   \<and> get_base_name [''d'', ''IMG.JPG''] = ''IMG''
   \<and> get_base_name [''d'', ''img.jpg''] = ''img''"
proof -
  have h: "RawOrganizer mixed_case ''d'' = Inr organizer_d"
    by code_simp
  have lists:
    "(filter (\<lambda>p. is_file mixed_case p \<and> lower (suffix p) \<in> {''.jpg'', ''.jpeg''}) (rglob mixed_case [''d'']),
      filter (\<lambda>p. is_file mixed_case p \<and> lower (suffix p) \<in>
                        {''.cr2'', ''.cr3'', ''.nef'', ''.arw'', ''.dng'',
                         ''.orf'', ''.rw2'', ''.pef'', ''.srw'', ''.x3f''}) (rglob mixed_case [''d'']))
     = ([[''d'', ''IMG.JPG''], [''d'', ''img.jpg''], [''d'', ''sub'', ''a.b.jpg'']],
        [[''d'', ''x.CR2''], [''d'', ''sub'', ''y.Nef'']])"
    by code_simp
  have names: "get_base_name [''d'', ''IMG.JPG''] = ''IMG''" "get_base_name [''d'', ''img.jpg''] = ''img''"
    by code_simp+
  from classification_by_extension [OF h] lists h names
  show ?thesis by (simp add: Path_d)
qed

text \<open>
  C8. When the directory given on the command line does not exist, \<open>main\<close> exits with
  code 1, prints only the error "Directory ... does not exist" with the argument as it was
  given, and leaves the file system unchanged: nothing is scanned.
\<close>

theorem missing_directory_fails:
  "\<not> path_exists fs (Path (args_directory a)) \<Longrightarrow>
   main a stdin fs
     = (1, [''Error: Directory '' @ args_directory a @ '' does not exist'' @ newline], fs)"
  by (simp add: main_def RawOrganizer_def println_def)

theorem missing_directory_fails_witness:
  "Path ''./e/'' = [''e'']
   \<and> \<not> path_exists photos (Path ''./e/'')
   \<and> main \<lparr>args_directory = ''./e/'', args_anchor = ''jpg'', args_dry_run = True, args_execute = True\<rparr>
        (Some ''yes'') photos
     = (1, [''Error: Directory ./e/ does not exist'' @ newline], photos)"
proof -
  let ?a = "\<lparr>args_directory = ''./e/'', args_anchor = ''jpg'', args_dry_run = True, args_execute = True\<rparr>"
  have p: "Path ''./e/'' = [''e'']" by code_simp
  have h: "\<not> path_exists photos (Path (args_directory ?a))"
    by (simp add: p path_exists_def photos_def)
  from missing_directory_fails [of photos ?a "Some ''yes''", OF h] p h
  show ?thesis by simp
qed

text \<open>
  C9. When the scan finds neither a JPEG nor a RAW file, \<open>main\<close> prints the scan
  output and the "nothing found" notice, exits with code 0 and leaves the file system
  unchanged; nothing else is printed.
\<close>

theorem nothing_found_stops:
  assumes "RawOrganizer fs (args_directory a) = Inr organizer0"
    and "fst (discover_files organizer0 fs) = ([], [])"
  shows "main a stdin fs
           = (0, [''Scanning directory: '' @ str_path (Path (args_directory a)) @ newline,
                  ''Found 0 JPG files'' @ newline,
                  ''Found 0 RAW files'' @ newline,
                  ''No JPG or RAW files found in the directory.'' @ newline], fs)"
proof -
  from assms(1) have dir: "self_input_directory organizer0 = Path (args_directory a)"
    by (auto simp: RawOrganizer_def split: if_splits)
  obtain jpg_files raw_files organizer out
    where scan: "discover_files organizer0 fs = ((jpg_files, raw_files), organizer, out)"
    by (metis prod.exhaust)
  with assms(2) have empty: "jpg_files = []" "raw_files = []" by simp_all
  from scan have "out = println (''Scanning directory: '' @ str_path (Path (args_directory a)))
                       @ println (''Found '' @ string_of_nat (length jpg_files) @ '' JPG files'')
                       @ println (''Found '' @ string_of_nat (length raw_files) @ '' RAW files'')"
    by (auto simp: discover_files_def dir split: prod.splits)
  then have out: "out = [''Scanning directory: '' @ str_path (Path (args_directory a)) @ newline,
                         ''Found 0 JPG files'' @ newline, ''Found 0 RAW files'' @ newline]"
    by (simp add: empty println_def string_of_nat_0)
  show ?thesis
    by (simp add: main_def assms(1) scan empty out println_def)
qed

theorem nothing_found_stops_witness:
  "RawOrganizer no_photos ''d'' = Inr organizer_d
   \<and> fst (discover_files organizer_d no_photos) = ([], [])
   \<and> main \<lparr>args_directory = ''d'', args_anchor = ''jpg'', args_dry_run = True, args_execute = True\<rparr>
        None no_photos
     = (0, [''Scanning directory: d'' @ newline,
            ''Found 0 JPG files'' @ newline,
            ''Found 0 RAW files'' @ newline,
            ''No JPG or RAW files found in the directory.'' @ newline], no_photos)"
proof -
  have h1: "RawOrganizer no_photos ''d'' = Inr organizer_d"
    by code_simp
  have h2: "fst (discover_files organizer_d no_photos) = ([], [])"
    by code_simp
  have h1': "RawOrganizer no_photos (args_directory \<lparr>args_directory = ''d'', args_anchor = ''jpg'', args_dry_run = True, args_execute = True\<rparr>) = Inr organizer_d"
    using h1 by simp
  from nothing_found_stops [OF h1' h2, of None] h1 h2
  show ?thesis by (simp add: Path_d)
qed

text \<open>
  C10. Only the part after the last dot of a name is cut off: a name \<open>b.e\<close> with \<open>b\<close>
  and \<open>e\<close> not empty and no dot in \<open>e\<close> has stem \<open>b\<close> and suffix \<open>.e\<close>. So
  \<open>a.b.jpg\<close> is a JPEG with stem \<open>a.b\<close>, which matches \<open>a.b.cr2\<close> and not
  \<open>a.cr2\<close>. A name that is one leading dot and then no further dot has an empty suffix,
  and the scan step ignores it.
\<close>

theorem final_extension_only:
  "(b \<noteq> [] \<and> e \<noteq> [] \<and> CHR ''.'' \<notin> set e \<longrightarrow>
      get_base_name (d @ [b @ ''.'' @ e]) = b \<and> suffix (d @ [b @ ''.'' @ e]) = ''.'' @ e)
   \<and> (is_file fs (d @ [''a.b.jpg'']) \<longrightarrow>
        discover_step fs raw_exts (jpg_files, raw_files) (d @ [''a.b.jpg''])
          = (jpg_files @ [d @ [''a.b.jpg'']], raw_files))
   \<and> find_orphaned_files [d @ [''a.b.jpg'']] [d1 @ [''a.b.cr2''], d2 @ [''a.cr2'']]
        = [d2 @ [''a.cr2'']]
   \<and> (CHR ''.'' \<notin> set e \<longrightarrow> suffix (d @ [''.'' @ e]) = [])
   \<and> (CHR ''.'' \<notin> set e \<and> [] \<notin> raw_exts \<longrightarrow>
        discover_step fs raw_exts (jpg_files, raw_files) (d @ [''.'' @ e]) = (jpg_files, raw_files))"
proof -
  have general: "b \<noteq> [] \<and> e \<noteq> [] \<and> CHR ''.'' \<notin> set e \<longrightarrow>
      get_base_name (d @ [b @ ''.'' @ e]) = b \<and> suffix (d @ [b @ ''.'' @ e]) = ''.'' @ e"
    using stem_last_dot [of b e d] by (simp add: get_base_name_def)
  have jpg: "stem (d @ [''a.b'' @ ''.'' @ ''jpg'']) = ''a.b''"
            "suffix (d @ [''a.b'' @ ''.'' @ ''jpg'']) = ''.'' @ ''jpg''"
    by (rule stem_last_dot; simp)+
  have cr2: "stem (d1 @ [''a.b'' @ ''.'' @ ''cr2'']) = ''a.b''"
    by (rule stem_last_dot) simp_all
  have cr2': "stem (d2 @ [''a'' @ ''.'' @ ''cr2'']) = ''a''"
    by (rule stem_last_dot) simp_all
  have step: "is_file fs (d @ [''a.b.jpg'']) \<longrightarrow>
        discover_step fs raw_exts (jpg_files, raw_files) (d @ [''a.b.jpg''])
          = (jpg_files @ [d @ [''a.b.jpg'']], raw_files)"
    using jpg(2) by (simp add: discover_step_def lower_def lower_char_def)
  have orphans: "find_orphaned_files [d @ [''a.b.jpg'']] [d1 @ [''a.b.cr2''], d2 @ [''a.cr2'']]
        = [d2 @ [''a.cr2'']]"
    using jpg(1) cr2 cr2' by (simp add: find_orphaned_files_filter get_base_name_def)
  have dot: "CHR ''.'' \<notin> set e \<longrightarrow> suffix (d @ [''.'' @ e]) = []"
    using leading_dot_only(1) [of e d] by simp
  have ignored: "CHR ''.'' \<notin> set e \<and> [] \<notin> raw_exts \<longrightarrow>
        discover_step fs raw_exts (jpg_files, raw_files) (d @ [''.'' @ e]) = (jpg_files, raw_files)"
    using leading_dot_only(1) [of e d]
    by (simp add: discover_step_def lower_def)
  from general step orphans dot ignored show ?thesis by blast
qed

theorem final_extension_only_witness:
  "get_base_name [''d'', ''a.b.jpg''] = ''a.b''
   \<and> suffix [''d'', ''a.b.jpg''] = ''.jpg''
   \<and> suffix [''d'', ''.jpg''] = []
   \<and> is_file dotted [''d'', ''a.b.jpg'']
   \<and> discover_step dotted (self_raw_extensions organizer_d) ([], []) [''d'', ''a.b.jpg'']
        = ([[''d'', ''a.b.jpg'']], [])
   \<and> discover_step dotted (self_raw_extensions organizer_d) ([], []) [''d'', ''.jpg''] = ([], [])
   \<and> fst (discover_files organizer_d dotted)
        = ([[''d'', ''a.b.jpg'']], [[''d'', ''a.b.cr2''], [''d'', ''a.cr2'']])
   \<and> find_orphaned_files [[''d'', ''a.b.jpg'']] [[''d'', ''a.b.cr2''], [''d'', ''a.cr2'']]
        = [[''d'', ''a.cr2'']]"
proof -
  have h1: "''a.b'' \<noteq> [] \<and> ''jpg'' \<noteq> [] \<and> CHR ''.'' \<notin> set ''jpg''" by simp
  have h2: "is_file dotted ([''d''] @ [''a.b.jpg''])" by (simp add: is_file_def dotted_def)
  have h3: "CHR ''.'' \<notin> set ''jpg'' \<and> [] \<notin> self_raw_extensions organizer_d"
    by (simp add: organizer_d_def)
  have scan: "fst (discover_files organizer_d dotted)
        = ([[''d'', ''a.b.jpg'']], [[''d'', ''a.b.cr2''], [''d'', ''a.cr2'']])"
    by code_simp
  from final_extension_only [of "''a.b''" "''jpg''" "[''d'']" dotted "self_raw_extensions organizer_d"
         "[]" "[]" "[''d'']" "[''d'']"] h1 h2 h3 scan
  show ?thesis by simp
qed

end
